theory Spec2Isabelle
  imports Main
begin

section \<open>The firmware-artifact copier: Gateway/usb\_elf\_copier.cpp\<close>

text \<open>
  The program is a single \<^verbatim>\<open>main\<close> that talks to the operating system: \<^verbatim>\<open>readlink\<close>,
  \<^verbatim>\<open>access\<close>, \<^verbatim>\<open>mkdir\<close>, \<^verbatim>\<open>system\<close> and the \<^verbatim>\<open>std::filesystem\<close> calls. The model
  takes the answers of the operating system as a record \<open>env\<close>, runs \<^verbatim>\<open>main\<close> against it and
  returns the exit status and the sequence of calls and messages the program made (its
  trace). What a call does to the disk is the library's and the operating system's doing,
  not the program's: to copy a file is, for the program, to call
  \<^verbatim>\<open>std::filesystem::copy\<close> on it, and the trace records the call with its source, its
  destination and its option.
\<close>

subsection \<open>What the operating system answers\<close>

type_synonym path = string

datatype errno = EEXIST | EACCES | ENOENT | ENOSPC | EROFS | ENOTDIR

text \<open>\<^verbatim>\<open>mkdir\<close> returns 0, or a negative value with \<^verbatim>\<open>errno\<close> set.\<close>

datatype mkdir_result = MkdirOk | MkdirFailed errno

text \<open>
  What \<^verbatim>\<open>entry.is_regular_file()\<close> looks at: the type of the file behind the entry
  (symbolic links followed), or a \<^verbatim>\<open>filesystem_error\<close> carrying a message.
\<close>

datatype file_type = regular_file | directory_file | not_found | other_file

datatype status_result = Status file_type | StatusThrows string

datatype fs_result = Done | Throws string

record dir_entry =
  entry_name :: string
  entry_status :: status_result

record env =
  env_readlink :: "string option"
  env_access :: "path \<Rightarrow> bool"
  env_mkdir :: mkdir_result
  env_system :: "string \<Rightarrow> int"
  env_create_directories :: fs_result
  env_entries :: "string + dir_entry list"
  env_copy :: "path \<Rightarrow> path \<Rightarrow> fs_result"

text \<open>
  \<open>env_readlink\<close>: the bytes \<^verbatim>\<open>readlink\<close> puts into \<^verbatim>\<open>buf\<close>, or \<open>None\<close> when it returns a
  negative length. \<open>env_access p\<close>: \<^verbatim>\<open>access(p, F_OK) == 0\<close>. \<open>env_system cmd\<close>: the value
  \<^verbatim>\<open>system(cmd)\<close> returns. \<open>env_entries\<close>: the entries \<^verbatim>\<open>directory_iterator(source_dir)\<close>
  yields (\<open>Inr\<close>), or the message of the \<^verbatim>\<open>filesystem_error\<close> it throws (\<open>Inl\<close>).
  \<open>env_copy src dst\<close>: whether \<^verbatim>\<open>std::filesystem::copy(src, dst, overwrite_existing)\<close>
  returns or throws.
\<close>

subsection \<open>What the program does\<close>

text \<open>The \<^verbatim>\<open>copy_options\<close> that say what to do with a file already at the destination.\<close>

datatype copy_option = skip_existing | overwrite_existing | update_existing

datatype event =
    CallReadlink path
  | CallAccess path
  | CallMkdir path nat
  | CallSystem string
  | CallCreateDirectories path
  | CallCopy path path copy_option
  | Perror string
  | Cerr string
  | Cout string

record world =
  trace :: "event list"

record outcome = world +
  exit_status :: int

definition log :: "event \<Rightarrow> world \<Rightarrow> world" where
  "log ev w = w\<lparr>trace := trace w @ [ev]\<rparr>"

definition return :: "int \<Rightarrow> world \<Rightarrow> outcome" where
  "return n w = \<lparr>trace = trace w, exit_status = n\<rparr>"

subsection \<open>Paths\<close>

text \<open>\<^verbatim>\<open>std::string(buf)\<close> reads \<^verbatim>\<open>buf\<close> up to the first NUL.\<close>

definition c_string :: "string \<Rightarrow> string" where
  "c_string buf = takeWhile (\<lambda>c. c \<noteq> CHR 0x00) buf"

text \<open>\<^verbatim>\<open>path::filename()\<close>: what follows the last directory separator.\<close>

definition filename :: "path \<Rightarrow> string" where
  "filename p = rev (takeWhile (\<lambda>c. c \<noteq> CHR ''/'') (rev p))"

text \<open>
  \<^verbatim>\<open>path::extension()\<close>: the part of the filename from its rightmost period on; empty when
  the filename has no period, is \<^verbatim>\<open>.\<close> or \<^verbatim>\<open>..\<close>, or has its only period in front
  (\<^verbatim>\<open>.profile\<close> has no extension).
\<close>

definition extension :: "path \<Rightarrow> string" where
  "extension p =
     (let f = filename p;
          suffix = rev (takeWhile (\<lambda>c. c \<noteq> CHR ''.'') (rev f))
      in if CHR ''.'' \<notin> set f \<or> f = ''.'' \<or> f = ''..'' \<or> Suc (length suffix) = length f
         then []
         else CHR ''.'' # suffix)"

definition symlink :: path where
  "symlink = ''/dev/elf_usb''"

definition mount_point :: path where
  "mount_point = ''/mnt/elf_usb''"

definition source_dir :: path where
  "source_dir = mount_point @ ''/elf/''"

definition target_dir :: path where
  "target_dir = ''/main_module/data/elf/''"

text \<open>\<^verbatim>\<open>entry.path()\<close> of an entry the iterator over \<^verbatim>\<open>source_dir\<close> yields.\<close>

definition entry_path :: "dir_entry \<Rightarrow> path" where
  "entry_path x = source_dir @ entry_name x"

text \<open>
  \<^verbatim>\<open>target_dir / entry.path().filename()\<close>: \<^verbatim>\<open>target_dir\<close> ends with a separator, so the
  filename is appended as it is.
\<close>

definition target_path :: "dir_entry \<Rightarrow> path" where
  "target_path x = target_dir @ filename (entry_path x)"

text \<open>The condition of the \<^verbatim>\<open>if\<close> in the loop, for an entry whose status can be read.\<close>

definition is_elf_file :: "dir_entry \<Rightarrow> bool" where
  "is_elf_file x \<longleftrightarrow> entry_status x = Status regular_file \<and> extension (entry_path x) = ''.elf''"

subsection \<open>The loop and the try block (lines 41 to 51)\<close>

text \<open>
  The loop over the directory entries. A \<^verbatim>\<open>filesystem_error\<close> leaves the loop at once.
  The result is the world after the loop and the message of the exception, if one was
  thrown. An iterator that fails on the way to its next entry is an entry whose status
  throws.
\<close>

fun copy_entries :: "env \<Rightarrow> dir_entry list \<Rightarrow> world \<Rightarrow> world \<times> string option" where
  "copy_entries e [] w = (w, None)"
| "copy_entries e (x # xs) w =
     (case entry_status x of
        StatusThrows msg \<Rightarrow> (w, Some msg)
      | Status t \<Rightarrow>
          if t = regular_file \<and> extension (entry_path x) = ''.elf'' then
            (let w' = log (CallCopy (entry_path x) (target_path x) overwrite_existing) w in
             case env_copy e (entry_path x) (target_path x) of
               Throws msg \<Rightarrow> (w', Some msg)
             | Done \<Rightarrow> copy_entries e xs w')
          else copy_entries e xs w)"

definition try_body :: "env \<Rightarrow> world \<Rightarrow> world \<times> string option" where
  "try_body e w =
     (let w1 = log (CallCreateDirectories target_dir) w in
      case env_create_directories e of
        Throws msg \<Rightarrow> (w1, Some msg)
      | Done \<Rightarrow>
          (case env_entries e of
             Inl msg \<Rightarrow> (w1, Some msg)
           | Inr xs \<Rightarrow> copy_entries e xs w1))"

definition try_catch :: "env \<Rightarrow> world \<Rightarrow> world" where
  "try_catch e w =
     (case try_body e w of
        (w', None) \<Rightarrow> w'
      | (w', Some msg) \<Rightarrow> log (Cerr (''Filesystem error: '' @ msg)) w')"

subsection \<open>main\<close>

definition real_dev :: "string \<Rightarrow> path" where
  "real_dev buf = ''/dev/'' @ c_string buf"

definition partition :: "env \<Rightarrow> string \<Rightarrow> path" where
  "partition e buf =
     (if \<not> env_access e (real_dev buf @ ''1'') then real_dev buf else real_dev buf @ ''1'')"

definition mount_cmd :: "env \<Rightarrow> string \<Rightarrow> string" where
  "mount_cmd e buf = ''mount '' @ partition e buf @ '' '' @ mount_point"

definition umount_cmd :: string where
  "umount_cmd = ''umount '' @ mount_point"

definition mkdir_blocks :: "env \<Rightarrow> bool" where
  "mkdir_blocks e \<longleftrightarrow> (case env_mkdir e of MkdirOk \<Rightarrow> False | MkdirFailed en \<Rightarrow> en \<noteq> EEXIST)"

definition main :: "env \<Rightarrow> outcome" where
  "main e =
     (let w0 = log (CallReadlink symlink) \<lparr>trace = []\<rparr> in
      case env_readlink e of
        None \<Rightarrow> return 1 (log (Perror ''readlink failed'') w0)
      | Some buf \<Rightarrow>
          (let w1 = log (CallAccess (real_dev buf @ ''1'')) w0;
               w2 = log (CallMkdir mount_point 511) w1
           in if mkdir_blocks e then return 1 (log (Perror ''mkdir failed'') w2)
              else
                (let w3 = log (CallSystem (mount_cmd e buf)) w2
                 in if env_system e (mount_cmd e buf) \<noteq> 0
                    then return 1 (log (Cerr ''Mount failed. Ensure the program is run with sudo and the device is correct.'') w3)
                    else
                      (let w4 = try_catch e w3;
                           w5 = log (CallSystem umount_cmd) w4
                       in if env_system e umount_cmd \<noteq> 0
                          then return 1 (log (Cerr ''Unmount failed.'') w5)
                          else return 0 (log (Cout ''Files copied successfully.'') w5)))))"

text \<open>
  The commands handed to \<^verbatim>\<open>system\<close>, the copies asked for and the lines written to
  \<^verbatim>\<open>std::cerr\<close>, each in the order of the trace.
\<close>

fun system_calls :: "event list \<Rightarrow> string list" where
  "system_calls [] = []"
| "system_calls (CallSystem cmd # evs) = cmd # system_calls evs"
| "system_calls (_ # evs) = system_calls evs"

fun copy_calls :: "event list \<Rightarrow> (path \<times> path \<times> copy_option) list" where
  "copy_calls [] = []"
| "copy_calls (CallCopy src dst opt # evs) = (src, dst, opt) # copy_calls evs"
| "copy_calls (_ # evs) = copy_calls evs"

fun cerr_lines :: "event list \<Rightarrow> string list" where
  "cerr_lines [] = []"
| "cerr_lines (Cerr line # evs) = line # cerr_lines evs"
| "cerr_lines (_ # evs) = cerr_lines evs"

subsection \<open>Notions the statements about the copier use\<close>

text \<open>The entries of the source directory, none when the iterator throws.\<close>

definition listed :: "env \<Rightarrow> dir_entry list" where
  "listed e = (case env_entries e of Inl msg \<Rightarrow> [] | Inr xs \<Rightarrow> xs)"

text \<open>The run gets as far as the try block: \<^verbatim>\<open>readlink\<close>, \<^verbatim>\<open>mkdir\<close> and the mount let it.\<close>

definition reaches_copy :: "env \<Rightarrow> bool" where
  "reaches_copy e \<longleftrightarrow>
     (case env_readlink e of
        None \<Rightarrow> False
      | Some buf \<Rightarrow> \<not> mkdir_blocks e \<and> env_system e (mount_cmd e buf) = 0)"

text \<open>Nothing throws for this entry: its status can be read and, if it is copied, the copy returns.\<close>

definition entry_ok :: "env \<Rightarrow> dir_entry \<Rightarrow> bool" where
  "entry_ok e x \<longleftrightarrow>
     (case entry_status x of StatusThrows msg \<Rightarrow> False | Status t \<Rightarrow> True) \<and>
     (is_elf_file x \<longrightarrow> env_copy e (entry_path x) (target_path x) = Done)"

definition no_filesystem_error :: "env \<Rightarrow> bool" where
  "no_filesystem_error e \<longleftrightarrow>
     env_create_directories e = Done \<and>
     (case env_entries e of Inl msg \<Rightarrow> False | Inr xs \<Rightarrow> list_all (entry_ok e) xs)"

text \<open>Names as a directory has them: no two entries share one, and none holds a separator.\<close>

definition well_formed_names :: "dir_entry list \<Rightarrow> bool" where
  "well_formed_names xs \<longleftrightarrow>
     distinct (map entry_name xs) \<and> list_all (\<lambda>x. CHR ''/'' \<notin> set (entry_name x)) xs"

text \<open>
  The copies of the \<^verbatim>\<open>.elf\<close> regular files among \<open>xs\<close>: each from the source directory to
  the target directory under the same file name, overwriting what is there.
\<close>

definition copies_of :: "dir_entry list \<Rightarrow> (path \<times> path \<times> copy_option) list" where
  "copies_of xs =
     map (\<lambda>x. (entry_path x, target_path x, overwrite_existing)) (filter is_elf_file xs)"

text \<open>
  The entries the loop gets through before anything throws, and the entry, if any, at
  which it stops: the first one whose status cannot be read or whose copy throws.
\<close>

definition passed :: "env \<Rightarrow> dir_entry list" where
  "passed e = takeWhile (entry_ok e) (listed e)"

definition stopped_at :: "env \<Rightarrow> dir_entry list" where
  "stopped_at e = take 1 (dropWhile (entry_ok e) (listed e))"

text \<open>The entries behind the one the loop stops at.\<close>

definition behind_error :: "env \<Rightarrow> dir_entry list" where
  "behind_error e = drop 1 (dropWhile (entry_ok e) (listed e))"

text \<open>
  The message of the \<^verbatim>\<open>filesystem_error\<close> the try block throws, if it throws: that of
  \<^verbatim>\<open>create_directories\<close>, of the iterator, or of the entry the loop stops at.
\<close>

definition thrown :: "env \<Rightarrow> string option" where
  "thrown e =
     (case env_create_directories e of
        Throws msg \<Rightarrow> Some msg
      | Done \<Rightarrow>
          (case env_entries e of
             Inl msg \<Rightarrow> Some msg
           | Inr xs \<Rightarrow>
               (case dropWhile (entry_ok e) xs of
                  [] \<Rightarrow> None
                | x # rest \<Rightarrow>
                    (case entry_status x of
                       StatusThrows msg \<Rightarrow> Some msg
                     | Status t \<Rightarrow>
                         (case env_copy e (entry_path x) (target_path x) of
                            Throws msg \<Rightarrow> Some msg
                          | Done \<Rightarrow> None)))))"

subsection \<open>Sample runs\<close>

text \<open>
  A stick with one firmware image, a text file and a directory whose name ends in
  \<^verbatim>\<open>.elf\<close>; the device has a first partition.
\<close>

definition charger_elf :: dir_entry where
  "charger_elf = \<lparr>entry_name = ''charger.elf'', entry_status = Status regular_file\<rparr>"

definition notes_txt :: dir_entry where
  "notes_txt = \<lparr>entry_name = ''notes.txt'', entry_status = Status regular_file\<rparr>"

definition old_elf_dir :: dir_entry where
  "old_elf_dir = \<lparr>entry_name = ''old.elf'', entry_status = Status directory_file\<rparr>"

definition first_partition_exists :: "path \<Rightarrow> bool" where
  "first_partition_exists p \<longleftrightarrow> p = ''/dev/sdb1''"

definition always_zero :: "string \<Rightarrow> int" where
  "always_zero cmd = 0"

definition copy_returns :: "path \<Rightarrow> path \<Rightarrow> fs_result" where
  "copy_returns src dst = Done"

definition env_first_run :: env where
  "env_first_run =
     \<lparr>env_readlink = Some ''sdb'', env_access = first_partition_exists, env_mkdir = MkdirOk,
      env_system = always_zero, env_create_directories = Done,
      env_entries = Inr [charger_elf, notes_txt, old_elf_dir],
      env_copy = copy_returns\<rparr>"

text \<open>A stick without a partition table: only the whole device is there.\<close>

definition only_device_exists :: "path \<Rightarrow> bool" where
  "only_device_exists p \<longleftrightarrow> p = ''/dev/sdb''"

definition env_no_partition :: env where
  "env_no_partition = env_first_run\<lparr>env_access := only_device_exists\<rparr>"

text \<open>The same stick on a later run: the mount point is there already.\<close>

definition env_second_run :: env where
  "env_second_run = env_first_run\<lparr>env_mkdir := MkdirFailed EEXIST\<rparr>"

text \<open>Two images, and the copy of the first one throws.\<close>

definition a_elf :: dir_entry where
  "a_elf = \<lparr>entry_name = ''a.elf'', entry_status = Status regular_file\<rparr>"

definition b_elf :: dir_entry where
  "b_elf = \<lparr>entry_name = ''b.elf'', entry_status = Status regular_file\<rparr>"

definition copy_of_a_throws :: "path \<Rightarrow> path \<Rightarrow> fs_result" where
  "copy_of_a_throws src dst =
     (if src = ''/mnt/elf_usb/elf/a.elf'' then Throws ''cannot copy file'' else Done)"

definition env_copy_fails :: env where
  "env_copy_fails =
     \<lparr>env_readlink = Some ''sdb'', env_access = first_partition_exists, env_mkdir = MkdirOk,
      env_system = always_zero, env_create_directories = Done,
      env_entries = Inr [a_elf, b_elf],
      env_copy = copy_of_a_throws\<rparr>"

section \<open>The Protocol Master (spec 4.2)\<close>

text \<open>
  Modelled from the spec: the Protocol Master, its sessions and the Transport Link under it.
  None of this is among the sources; the definitions follow sections 3, 4.2, 6 and 7 of
  the specification. Of the operations, \<^verbatim>\<open>setAddress\<close>, \<^verbatim>\<open>upload\<close> and \<^verbatim>\<open>download\<close> are
  modelled. The bounded retry of transient transport errors sits below the model: a fault
  here is one that has outlasted the retries.
\<close>

subsection \<open>Sessions, errors and the link\<close>

type_synonym bytes = "nat list"

datatype session_state = Disconnected | Connecting | Connected | Measuring

datatype protocol_error = Timeout | Rejected | SessionError | TransportError | ControllerUnavailable

text \<open>
  Modelled from the spec: the Transport Link, \<^verbatim>\<open>send(controllerAddress, frame) -> frame | timeout\<close>.
  A request frame sets the memory transfer pointer, or reads or writes one chunk of the
  controller's memory; the reply carries the bytes read. An exchange can go wrong in two
  ways: the reply is missing, or the link reports a fault.
\<close>

datatype frame =
    SetMta nat nat
  | ReadChunk nat nat nat
  | WriteChunk nat nat bytes

datatype fault = MissingReply | LinkFault

text \<open>
  Modelled from the spec: one controller as the Protocol Master sees it. \<open>session\<close> is the
  state of its ProtocolSession, \<open>pointer\<close> the memory transfer pointer (address and address
  extension), \<open>memory\<close> the controller's memory by extension and address, \<open>traffic\<close> the
  frames sent to it so far, \<open>faults\<close> the fault, if any, that befalls the exchange with a
  given number, and \<open>max_payload\<close> the transport's maximum frame payload.
\<close>

record link =
  session :: session_state
  pointer :: "nat \<times> nat"
  memory :: "nat \<times> nat \<Rightarrow> nat"
  traffic :: "frame list"
  faults :: "nat \<Rightarrow> fault option"
  max_payload :: nat

definition established :: "link \<Rightarrow> bool" where
  "established l \<longleftrightarrow> session l = Connected \<or> session l = Measuring"

definition error_of :: "fault \<Rightarrow> protocol_error" where
  "error_of ft = (case ft of MissingReply \<Rightarrow> Timeout | LinkFault \<Rightarrow> TransportError)"

text \<open>What the controller does with a frame that reaches it, and the bytes it answers.\<close>

fun write_bytes :: "(nat \<times> nat \<Rightarrow> nat) \<Rightarrow> nat \<Rightarrow> nat \<Rightarrow> bytes \<Rightarrow> (nat \<times> nat \<Rightarrow> nat)" where
  "write_bytes m x a [] = m"
| "write_bytes m x a (b # bs) = write_bytes (m((x, a) := b)) x (Suc a) bs"

definition read_bytes :: "(nat \<times> nat \<Rightarrow> nat) \<Rightarrow> nat \<Rightarrow> nat \<Rightarrow> nat \<Rightarrow> bytes" where
  "read_bytes m x a n = map (\<lambda>i. m (x, a + i)) [0..<n]"

definition respond :: "frame \<Rightarrow> link \<Rightarrow> bytes \<times> link" where
  "respond f l =
     (case f of
        SetMta a x \<Rightarrow> ([], l\<lparr>pointer := (a, x)\<rparr>)
      | ReadChunk x a n \<Rightarrow> (read_bytes (memory l) x a n, l)
      | WriteChunk x a bs \<Rightarrow> ([], l\<lparr>memory := write_bytes (memory l) x a bs\<rparr>))"

text \<open>
  Modelled from the spec: one exchange. The frame is sent (it counts as traffic); a fault
  forces the session to Disconnected, otherwise the controller answers.
\<close>

definition send :: "frame \<Rightarrow> link \<Rightarrow> (fault + bytes) \<times> link" where
  "send f l =
     (let l' = l\<lparr>traffic := traffic l @ [f]\<rparr> in
      case faults l (length (traffic l)) of
        Some ft \<Rightarrow> (Inl ft, l'\<lparr>session := Disconnected\<rparr>)
      | None \<Rightarrow> (case respond f l' of (bs, l'') \<Rightarrow> (Inr bs, l'')))"

subsection \<open>Chunking\<close>

text \<open>
  Modelled from the spec: a transfer of \<open>n\<close> bytes is cut into chunks of at most
  \<open>max_payload\<close> bytes, in order. \<open>spans mp off n\<close> are the offsets and lengths of the
  chunks of \<open>n\<close> bytes starting at offset \<open>off\<close>. The limit is a constant of the
  transport that the specification leaves open; it is meant to be positive, and with a
  limit of zero no chunk can be cut.
\<close>

function spans :: "nat \<Rightarrow> nat \<Rightarrow> nat \<Rightarrow> (nat \<times> nat) list" where
  "spans mp off n =
     (if n = 0 \<or> mp = 0 then []
      else (off, min mp n) # spans mp (off + min mp n) (n - min mp n))"
  by pat_completeness auto
termination
  by (relation "measure (\<lambda>(mp, off, n). n)") auto

text \<open>The chunks are exchanged one after the other; the first fault ends the transfer.\<close>

fun upload_chunks :: "nat \<Rightarrow> nat \<Rightarrow> (nat \<times> nat) list \<Rightarrow> link \<Rightarrow> (protocol_error + bytes) \<times> link" where
  "upload_chunks x a [] l = (Inr [], l)"
| "upload_chunks x a ((off, n) # cs) l =
     (case send (ReadChunk x (a + off) n) l of
        (Inl ft, l') \<Rightarrow> (Inl (error_of ft), l')
      | (Inr bs, l') \<Rightarrow>
          (case upload_chunks x a cs l' of
             (Inl err, l'') \<Rightarrow> (Inl err, l'')
           | (Inr rest, l'') \<Rightarrow> (Inr (bs @ rest), l'')))"

fun download_chunks :: "nat \<Rightarrow> nat \<Rightarrow> bytes \<Rightarrow> (nat \<times> nat) list \<Rightarrow> link \<Rightarrow> (protocol_error + unit) \<times> link" where
  "download_chunks x a bs [] l = (Inr (), l)"
| "download_chunks x a bs ((off, n) # cs) l =
     (case send (WriteChunk x (a + off) (take n (drop off bs))) l of
        (Inl ft, l') \<Rightarrow> (Inl (error_of ft), l')
      | (Inr reply, l') \<Rightarrow> download_chunks x a bs cs l')"

subsection \<open>The operations\<close>

text \<open>
  Modelled from the spec: \<^verbatim>\<open>setAddress\<close> is valid only in Connected and Measuring and fails
  with SessionError otherwise; it establishes the controller's memory transfer pointer.
\<close>

definition setAddress :: "link \<Rightarrow> nat \<Rightarrow> nat \<Rightarrow> (protocol_error + unit) \<times> link" where
  "setAddress l address addressExtension =
     (if \<not> established l then (Inl SessionError, l)
      else case send (SetMta address addressExtension) l of
             (Inl ft, l') \<Rightarrow> (Inl (error_of ft), l')
           | (Inr reply, l') \<Rightarrow> (Inr (), l'))"

text \<open>
  Modelled from the spec: \<^verbatim>\<open>upload\<close> requests \<open>sz\<close> bytes from the previously set address,
  in chunks, and puts them together in order. Without an established session it fails
  before anything is sent. The previously set address is the one the last \<^verbatim>\<open>setAddress\<close>
  gave: a transfer does not move the pointer.
\<close>

definition upload :: "link \<Rightarrow> nat \<Rightarrow> (protocol_error + bytes) \<times> link" where
  "upload l sz =
     (if \<not> established l then (Inl SessionError, l)
      else upload_chunks (snd (pointer l)) (fst (pointer l)) (spans (max_payload l) 0 sz) l)"

text \<open>Modelled from the spec: \<^verbatim>\<open>download\<close> is symmetric to upload for writes.\<close>

definition download :: "link \<Rightarrow> bytes \<Rightarrow> (protocol_error + unit) \<times> link" where
  "download l bs =
     (if \<not> established l then (Inl SessionError, l)
      else download_chunks (snd (pointer l)) (fst (pointer l)) bs
             (spans (max_payload l) 0 (length bs)) l)"

subsection \<open>Commands and responses (spec 3 and 6)\<close>

datatype operation = SET_MTA nat nat | UPLOAD nat | DOWNLOAD bytes

datatype status = success | error

record command =
  cmd_id :: string
  cmd_operation :: operation

record response =
  command_id :: string
  resp_status :: status
  message :: string
  returned :: bytes

definition message_of :: "protocol_error \<Rightarrow> string" where
  "message_of err =
     (case err of
        Timeout \<Rightarrow> ''timeout''
      | Rejected \<Rightarrow> ''rejected''
      | SessionError \<Rightarrow> ''session not established''
      | TransportError \<Rightarrow> ''transport error''
      | ControllerUnavailable \<Rightarrow> ''controller unavailable'')"

definition failed :: "string \<Rightarrow> protocol_error \<Rightarrow> response" where
  "failed cid err = \<lparr>command_id = cid, resp_status = error, message = message_of err, returned = []\<rparr>"

definition succeeded :: "string \<Rightarrow> bytes \<Rightarrow> response" where
  "succeeded cid bs = \<lparr>command_id = cid, resp_status = success, message = ''ok'', returned = bs\<rparr>"

text \<open>
  Modelled from the spec: a command against one controller and the Response that echoes
  its identifier; an upload's Response carries the bytes read.
\<close>

definition execute :: "link \<Rightarrow> command \<Rightarrow> response \<times> link" where
  "execute l c =
     (case cmd_operation c of
        SET_MTA a x \<Rightarrow>
          (case setAddress l a x of
             (Inl err, l') \<Rightarrow> (failed (cmd_id c) err, l')
           | (Inr u, l') \<Rightarrow> (succeeded (cmd_id c) [], l'))
      | UPLOAD n \<Rightarrow>
          (case upload l n of
             (Inl err, l') \<Rightarrow> (failed (cmd_id c) err, l')
           | (Inr bs, l') \<Rightarrow> (succeeded (cmd_id c) bs, l'))
      | DOWNLOAD bs \<Rightarrow>
          (case download l bs of
             (Inl err, l') \<Rightarrow> (failed (cmd_id c) err, l')
           | (Inr u, l') \<Rightarrow> (succeeded (cmd_id c) [], l')))"

subsection \<open>Two controllers\<close>

definition zero_memory :: "nat \<times> nat \<Rightarrow> nat" where
  "zero_memory k = 0"

definition no_fault :: "nat \<Rightarrow> fault option" where
  "no_fault k = None"

text \<open>A connected controller behind a link that carries four bytes a frame.\<close>

definition connected_link :: link where
  "connected_link =
     \<lparr>session = Connected, pointer = (0, 0), memory = zero_memory, traffic = [],
      faults = no_fault, max_payload = 4\<rparr>"

text \<open>A controller no one has connected to yet.\<close>

definition fresh_link :: link where
  "fresh_link = connected_link\<lparr>session := Disconnected\<rparr>"

definition upload_command :: command where
  "upload_command = \<lparr>cmd_id = ''2'', cmd_operation = UPLOAD 4\<rparr>"

subsection \<open>Notions the statements about the Protocol Master use\<close>

text \<open>
  The frames a transfer cut into the chunks \<open>cs\<close> sends, the bytes its reads return put
  together, and the memory after its writes.
\<close>

definition read_frames :: "nat \<Rightarrow> nat \<Rightarrow> (nat \<times> nat) list \<Rightarrow> frame list" where
  "read_frames x a cs = map (\<lambda>(off, n). ReadChunk x (a + off) n) cs"

definition write_frames :: "nat \<Rightarrow> nat \<Rightarrow> bytes \<Rightarrow> (nat \<times> nat) list \<Rightarrow> frame list" where
  "write_frames x a bs cs = map (\<lambda>(off, n). WriteChunk x (a + off) (take n (drop off bs))) cs"

fun read_all :: "(nat \<times> nat \<Rightarrow> nat) \<Rightarrow> nat \<Rightarrow> nat \<Rightarrow> (nat \<times> nat) list \<Rightarrow> bytes" where
  "read_all m x a [] = []"
| "read_all m x a ((off, n) # cs) = read_bytes m x (a + off) n @ read_all m x a cs"

fun write_all :: "(nat \<times> nat \<Rightarrow> nat) \<Rightarrow> nat \<Rightarrow> nat \<Rightarrow> bytes \<Rightarrow> (nat \<times> nat) list \<Rightarrow> (nat \<times> nat \<Rightarrow> nat)" where
  "write_all m x a bs [] = m"
| "write_all m x a bs ((off, n) # cs) =
     write_all (write_bytes m x (a + off) (take n (drop off bs))) x a bs cs"

text \<open>A payload that takes three frames on the connected link.\<close>

definition nine_bytes :: bytes where
  "nine_bytes = [1, 2, 3, 4, 5, 6, 7, 8, 9]"

section \<open>Properties of the copier\<close>

subsection \<open>Traces\<close>

lemma trace_log [simp]: "trace (log ev w) = trace w @ [ev]"
  by (simp add: log_def)

lemma return_simps [simp]:
  "trace (return n w) = trace w" "exit_status (return n w) = n"
  by (simp_all add: return_def)

lemma system_calls_append [simp]: "system_calls (xs @ ys) = system_calls xs @ system_calls ys"
  by (induction xs rule: system_calls.induct) simp_all

lemma copy_calls_append [simp]: "copy_calls (xs @ ys) = copy_calls xs @ copy_calls ys"
  by (induction xs rule: copy_calls.induct) simp_all

lemma cerr_lines_append [simp]: "cerr_lines (xs @ ys) = cerr_lines xs @ cerr_lines ys"
  by (induction xs rule: cerr_lines.induct) simp_all

lemma copies_of_Nil [simp]: "copies_of [] = []"
  by (simp add: copies_of_def)

lemma copies_of_Cons [simp]:
  "copies_of (x # xs) =
     (if is_elf_file x then (entry_path x, target_path x, overwrite_existing) # copies_of xs
      else copies_of xs)"
  by (simp add: copies_of_def)

lemma copies_of_append [simp]: "copies_of (xs @ ys) = copies_of xs @ copies_of ys"
  by (simp add: copies_of_def)

subsection \<open>One turn of the loop\<close>

text \<open>The four ways an entry can go, as equations for the loop.\<close>

lemma copy_entries_status_throws:
  "entry_status x = StatusThrows msg \<Longrightarrow> copy_entries e (x # xs) w = (w, Some msg)"
  by simp

lemma copy_entries_skip:
  "entry_status x = Status t \<Longrightarrow> \<not> is_elf_file x \<Longrightarrow>
     copy_entries e (x # xs) w = copy_entries e xs w"
  by (auto simp: is_elf_file_def)

lemma copy_entries_copy_throws:
  "is_elf_file x \<Longrightarrow> env_copy e (entry_path x) (target_path x) = Throws msg \<Longrightarrow>
     copy_entries e (x # xs) w =
       (log (CallCopy (entry_path x) (target_path x) overwrite_existing) w, Some msg)"
  by (simp add: is_elf_file_def Let_def)

lemma copy_entries_copy_done:
  "is_elf_file x \<Longrightarrow> env_copy e (entry_path x) (target_path x) = Done \<Longrightarrow>
     copy_entries e (x # xs) w =
       copy_entries e xs (log (CallCopy (entry_path x) (target_path x) overwrite_existing) w)"
  by (simp add: is_elf_file_def Let_def)

text \<open>Every entry goes one of the four ways; two of them let the loop go on.\<close>

lemma entry_cases:
  fixes x :: dir_entry and e :: env
  obtains (status_throws) msg where "entry_status x = StatusThrows msg" "\<not> entry_ok e x"
  | (skip) t where "entry_status x = Status t" "\<not> is_elf_file x" "entry_ok e x"
  | (copy_throws) msg where "is_elf_file x" "env_copy e (entry_path x) (target_path x) = Throws msg"
      "\<not> entry_ok e x"
  | (copy_done) "is_elf_file x" "env_copy e (entry_path x) (target_path x) = Done" "entry_ok e x"
proof (cases "entry_status x")
  case (StatusThrows msg)
  moreover from StatusThrows have "\<not> entry_ok e x" by (simp add: entry_ok_def)
  ultimately show ?thesis by (rule status_throws)
next
  case (Status t)
  show ?thesis
  proof (cases "is_elf_file x")
    case False
    moreover from Status False have "entry_ok e x" by (simp add: entry_ok_def)
    ultimately show ?thesis using Status by (auto intro: skip)
  next
    case True
    show ?thesis
    proof (cases "env_copy e (entry_path x) (target_path x)")
      case Done
      moreover from Status True Done have "entry_ok e x" by (simp add: entry_ok_def)
      ultimately show ?thesis using True by (auto intro: copy_done)
    next
      case (Throws msg)
      moreover from True Throws have "\<not> entry_ok e x" by (simp add: entry_ok_def)
      ultimately show ?thesis using True by (auto intro: copy_throws)
    qed
  qed
qed

subsection \<open>The loop\<close>


lemma copy_entries_cerr_lines:
  "cerr_lines (trace (fst (copy_entries e xs w))) = cerr_lines (trace w)"
proof (induction xs arbitrary: w)
  case Nil
  show ?case by simp
next
  case (Cons x xs)
  show ?case
  proof (cases rule: entry_cases [where x = x and e = e])
    case (status_throws msg)
    then show ?thesis by (simp add: copy_entries_status_throws del: copy_entries.simps)
  next
    case (skip t)
    with Cons.IH [of w] show ?thesis by (simp add: copy_entries_skip del: copy_entries.simps)
  next
    case (copy_throws msg)
    then show ?thesis by (simp add: copy_entries_copy_throws del: copy_entries.simps)
  next
    case copy_done
    then show ?thesis by (simp add: copy_entries_copy_done Cons.IH del: copy_entries.simps)
  qed
qed

lemma copy_entries_trace_extends:
  "\<exists>evs. trace (fst (copy_entries e xs w)) = trace w @ evs"
proof (induction xs arbitrary: w)
  case Nil
  show ?case by simp
next
  case (Cons x xs)
  show ?case
  proof (cases rule: entry_cases [where x = x and e = e])
    case (status_throws msg)
    then show ?thesis by (simp add: copy_entries_status_throws del: copy_entries.simps)
  next
    case (skip t)
    with Cons.IH [of w] show ?thesis by (simp add: copy_entries_skip del: copy_entries.simps)
  next
    case (copy_throws msg)
    then show ?thesis by (simp add: copy_entries_copy_throws del: copy_entries.simps)
  next
    case copy_done
    let ?w = "log (CallCopy (entry_path x) (target_path x) overwrite_existing) w"
    from Cons.IH [of ?w] obtain evs where "trace (fst (copy_entries e xs ?w)) = trace ?w @ evs" ..
    with copy_done show ?thesis by (simp add: copy_entries_copy_done del: copy_entries.simps)
  qed
qed

text \<open>
  The copies the loop asks for are those of the entries it gets through and of the entry
  it stops at, and no others.
\<close>

lemma copy_entries_copy_calls:
  "copy_calls (trace (fst (copy_entries e xs w))) =
     copy_calls (trace w) @
     copies_of (takeWhile (entry_ok e) xs @ take 1 (dropWhile (entry_ok e) xs))"
proof (induction xs arbitrary: w)
  case Nil
  show ?case by simp
next
  case (Cons x xs)
  show ?case
  proof (cases rule: entry_cases [where x = x and e = e])
    case (status_throws msg)
    moreover from status_throws have "\<not> is_elf_file x" by (simp add: is_elf_file_def)
    ultimately show ?thesis by (simp add: copy_entries_status_throws del: copy_entries.simps)
  next
    case (skip t)
    with Cons.IH [of w] show ?thesis by (simp add: copy_entries_skip del: copy_entries.simps)
  next
    case (copy_throws msg)
    then show ?thesis by (simp add: copy_entries_copy_throws del: copy_entries.simps)
  next
    case copy_done
    let ?w = "log (CallCopy (entry_path x) (target_path x) overwrite_existing) w"
    from Cons.IH [of ?w] copy_done show ?thesis
      by (simp add: copy_entries_copy_done del: copy_entries.simps)
  qed
qed

text \<open>The exception that leaves the loop is the one of the entry it stops at.\<close>

lemma copy_entries_thrown:
  "snd (copy_entries e xs w) =
     (case dropWhile (entry_ok e) xs of
        [] \<Rightarrow> None
      | x # rest \<Rightarrow>
          (case entry_status x of
             StatusThrows msg \<Rightarrow> Some msg
           | Status t \<Rightarrow>
               (case env_copy e (entry_path x) (target_path x) of
                  Throws msg \<Rightarrow> Some msg
                | Done \<Rightarrow> None)))"
proof (induction xs arbitrary: w)
  case Nil
  show ?case by simp
next
  case (Cons x xs)
  show ?case
  proof (cases rule: entry_cases [where x = x and e = e])
    case (status_throws msg)
    then show ?thesis by (simp add: copy_entries_status_throws del: copy_entries.simps)
  next
    case (skip t)
    with Cons.IH [of w] show ?thesis by (simp add: copy_entries_skip del: copy_entries.simps)
  next
    case (copy_throws msg)
    moreover from copy_throws(1) have "entry_status x = Status regular_file"
      by (simp add: is_elf_file_def)
    ultimately show ?thesis by (simp add: copy_entries_copy_throws del: copy_entries.simps)
  next
    case copy_done
    let ?w = "log (CallCopy (entry_path x) (target_path x) overwrite_existing) w"
    from Cons.IH [of ?w] copy_done show ?thesis
      by (simp add: copy_entries_copy_done del: copy_entries.simps)
  qed
qed

subsection \<open>The try block\<close>

text \<open>The try block either runs the loop or throws before it.\<close>

lemma try_body_cases:
  fixes e :: env and w :: world
  obtains (throws_early) msg where
      "try_body e w = (log (CallCreateDirectories target_dir) w, Some msg)"
      "thrown e = Some msg"
      "env_create_directories e \<noteq> Done \<or> listed e = []"
  | (loop) "try_body e w = copy_entries e (listed e) (log (CallCreateDirectories target_dir) w)"
      "env_create_directories e = Done"
      "thrown e = snd (copy_entries e (listed e) (log (CallCreateDirectories target_dir) w))"
proof (cases "env_create_directories e")
  case (Throws msg)
  then have "try_body e w = (log (CallCreateDirectories target_dir) w, Some msg)"
    by (simp add: try_body_def Let_def)
  moreover from Throws have "thrown e = Some msg" by (simp add: thrown_def)
  moreover from Throws have "env_create_directories e \<noteq> Done \<or> listed e = []" by simp
  ultimately show ?thesis by (rule throws_early)
next
  case Done
  show ?thesis
  proof (cases "env_entries e")
    case (Inl msg)
    with Done have "try_body e w = (log (CallCreateDirectories target_dir) w, Some msg)"
      by (simp add: try_body_def Let_def)
    moreover from Done Inl have "thrown e = Some msg" by (simp add: thrown_def)
    moreover from Inl have "env_create_directories e \<noteq> Done \<or> listed e = []"
      by (simp add: listed_def)
    ultimately show ?thesis by (rule throws_early)
  next
    case (Inr xs)
    with Done have "try_body e w = copy_entries e (listed e) (log (CallCreateDirectories target_dir) w)"
      by (simp add: try_body_def Let_def listed_def)
    moreover from Done Inr
    have "thrown e = snd (copy_entries e (listed e) (log (CallCreateDirectories target_dir) w))"
      by (simp add: thrown_def listed_def copy_entries_thrown)
    ultimately show ?thesis using Done by (auto intro: loop)
  qed
qed

lemma try_body_thrown: "snd (try_body e w) = thrown e"
  by (cases rule: try_body_cases [where e = e and w = w]) simp_all

lemma try_catch_fst:
  "copy_calls (trace (try_catch e w)) = copy_calls (trace (fst (try_body e w)))"
  "system_calls (trace (try_catch e w)) = system_calls (trace (fst (try_body e w)))"
  by (cases "try_body e w"; simp add: try_catch_def split: option.splits)+

text \<open>What the catch block adds: the report of the exception, as the last thing logged.\<close>

lemma try_catch_trace:
  "trace (try_catch e w) =
     trace (fst (try_body e w)) @
     (case thrown e of None \<Rightarrow> [] | Some msg \<Rightarrow> [Cerr (''Filesystem error: '' @ msg)])"
  using try_body_thrown [of e w]
  by (cases "try_body e w") (simp add: try_catch_def split: option.splits)

lemma try_body_trace_extends: "\<exists>evs. trace (fst (try_body e w)) = trace w @ evs"
proof (cases rule: try_body_cases [where e = e and w = w])
  case (throws_early msg)
  then show ?thesis by simp
next
  case loop
  from copy_entries_trace_extends [of e "listed e" "log (CallCreateDirectories target_dir) w"]
  obtain evs where "trace (fst (try_body e w)) = (trace w @ [CallCreateDirectories target_dir]) @ evs"
    using loop by auto
  then show ?thesis by simp
qed

lemma try_catch_trace_extends: "\<exists>evs. trace (try_catch e w) = trace w @ evs"
proof -
  obtain evs where "trace (fst (try_body e w)) = trace w @ evs"
    using try_body_trace_extends [of e w] ..
  then show ?thesis by (simp add: try_catch_trace)
qed


lemma try_body_cerr_lines:
  "cerr_lines (trace (fst (try_body e w))) = cerr_lines (trace w)"
  by (cases rule: try_body_cases [where e = e and w = w])
     (simp_all add: copy_entries_cerr_lines)

lemma try_catch_cerr_lines:
  "cerr_lines (trace (try_catch e w)) =
     cerr_lines (trace w) @
     (case thrown e of None \<Rightarrow> [] | Some msg \<Rightarrow> [''Filesystem error: '' @ msg])"
  by (simp add: try_catch_trace try_body_cerr_lines split: option.splits)

lemma try_catch_copy_calls:
  "copy_calls (trace (try_catch e w)) =
     copy_calls (trace w) @
     (if env_create_directories e = Done then copies_of (passed e @ stopped_at e) else [])"
proof (cases rule: try_body_cases [where e = e and w = w])
  case (throws_early msg)
  then show ?thesis by (auto simp: try_catch_fst passed_def stopped_at_def)
next
  case loop
  then show ?thesis
    by (simp add: try_catch_fst copy_entries_copy_calls passed_def stopped_at_def)
qed

subsection \<open>Runs without a filesystem error\<close>

lemma thrown_None_iff: "thrown e = None \<longleftrightarrow> no_filesystem_error e"
proof (cases "env_create_directories e")
  case (Throws msg)
  then show ?thesis by (simp add: thrown_def no_filesystem_error_def)
next
  case Done
  show ?thesis
  proof (cases "env_entries e")
    case (Inl msg)
    with Done show ?thesis by (simp add: thrown_def no_filesystem_error_def)
  next
    case (Inr xs)
    show ?thesis
    proof (cases "dropWhile (entry_ok e) xs")
      case Nil
      then have "list_all (entry_ok e) xs" by (simp add: list_all_iff)
      with Done Inr show ?thesis by (simp add: thrown_def no_filesystem_error_def Nil)
    next
      case (Cons x rest)
      then have x: "\<not> entry_ok e x" using hd_dropWhile [of "entry_ok e" xs] by auto
      from Cons have "\<not> list_all (entry_ok e) xs"
        by (auto simp: list_all_iff dropWhile_eq_Nil_conv [symmetric])
      moreover from x have "(case entry_status x of
             StatusThrows msg \<Rightarrow> Some msg
           | Status t \<Rightarrow>
               (case env_copy e (entry_path x) (target_path x) of
                  Throws msg \<Rightarrow> Some msg
                | Done \<Rightarrow> None)) \<noteq> None"
        by (cases rule: entry_cases [where x = x and e = e])
           (simp_all add: is_elf_file_def)
      ultimately show ?thesis using Done Inr
        by (simp add: thrown_def no_filesystem_error_def Cons)
    qed
  qed
qed

lemma no_error_passes_all:
  assumes "no_filesystem_error e"
  shows "env_create_directories e = Done" and "passed e = listed e" and "stopped_at e = []"
    and "behind_error e = []"
proof -
  from assms show "env_create_directories e = Done" by (simp add: no_filesystem_error_def)
  from assms have "list_all (entry_ok e) (listed e)"
    by (cases "env_entries e") (simp_all add: no_filesystem_error_def listed_def)
  then have all: "\<forall>x \<in> set (listed e). entry_ok e x" by (simp add: list_all_iff)
  then show "passed e = listed e" by (simp add: passed_def takeWhile_eq_all_conv)
  from all have none: "dropWhile (entry_ok e) (listed e) = []" by simp
  show "stopped_at e = []" by (simp add: stopped_at_def none)
  show "behind_error e = []" by (simp add: behind_error_def none)
qed

lemma listed_split: "listed e = passed e @ stopped_at e @ behind_error e"
  by (simp add: passed_def stopped_at_def behind_error_def)

subsection \<open>main\<close>


lemma exit_status_main:
  "exit_status (main e) =
     (case env_readlink e of
        None \<Rightarrow> 1
      | Some buf \<Rightarrow>
          if mkdir_blocks e \<or> env_system e (mount_cmd e buf) \<noteq> 0 \<or> env_system e umount_cmd \<noteq> 0
          then 1 else 0)"
  by (simp add: main_def Let_def split: option.splits)

lemma mkdir_blocks_iff:
  "\<not> mkdir_blocks e \<longleftrightarrow> env_mkdir e = MkdirOk \<or> env_mkdir e = MkdirFailed EEXIST"
  by (simp add: mkdir_blocks_def split: mkdir_result.splits)


lemma umount_is_last_call:
  assumes "env_readlink e = Some buf" and "\<not> mkdir_blocks e"
    and "env_system e (mount_cmd e buf) = 0"
  shows "\<exists>pre post. trace (main e) = pre @ [CallSystem umount_cmd, post] \<and>
           CallSystem (mount_cmd e buf) \<in> set pre"
proof -
  let ?w3 = "log (CallSystem (mount_cmd e buf))
               (log (CallMkdir mount_point 511)
                 (log (CallAccess (real_dev buf @ ''1''))
                   (log (CallReadlink symlink) \<lparr>trace = []\<rparr>)))"
  obtain evs where evs: "trace (try_catch e ?w3) = trace ?w3 @ evs"
    using try_catch_trace_extends [of e ?w3] ..
  have "CallSystem (mount_cmd e buf) \<in> set (trace ?w3 @ evs)" by simp
  moreover have "\<exists>post. trace (main e) = (trace ?w3 @ evs) @ [CallSystem umount_cmd, post]"
    using assms evs by (simp add: main_def Let_def)
  ultimately show ?thesis by blast
qed

text \<open>A run that reaches the try block: what comes before it, and what comes after.\<close>

lemma main_reaches_copy:
  assumes "reaches_copy e"
  shows "\<exists>w post. copy_calls (trace w) = [] \<and> cerr_lines (trace w) = [] \<and>
           trace (main e) = trace (try_catch e w) @ [CallSystem umount_cmd, post] \<and>
           copy_calls [post] = [] \<and>
           cerr_lines [post] = (if env_system e umount_cmd \<noteq> 0 then [''Unmount failed.''] else [])"
proof -
  from assms obtain buf where buf: "env_readlink e = Some buf" and mk: "\<not> mkdir_blocks e"
    and mnt: "env_system e (mount_cmd e buf) = 0"
    by (auto simp: reaches_copy_def split: option.splits)
  let ?w3 = "log (CallSystem (mount_cmd e buf))
               (log (CallMkdir mount_point 511)
                 (log (CallAccess (real_dev buf @ ''1''))
                   (log (CallReadlink symlink) \<lparr>trace = []\<rparr>)))"
  let ?post = "if env_system e umount_cmd \<noteq> 0 then Cerr ''Unmount failed.''
               else Cout ''Files copied successfully.''"
  have "copy_calls (trace ?w3) = []" and "cerr_lines (trace ?w3) = []" by simp_all
  moreover have "trace (main e) = trace (try_catch e ?w3) @ [CallSystem umount_cmd, ?post]"
    using buf mk mnt by (simp add: main_def Let_def)
  moreover have "copy_calls [?post] = []"
    and "cerr_lines [?post] = (if env_system e umount_cmd \<noteq> 0 then [''Unmount failed.''] else [])"
    by simp_all
  ultimately show ?thesis by blast
qed

lemma main_not_reaches_copy:
  assumes "\<not> reaches_copy e"
  shows "copy_calls (trace (main e)) = []"
  using assms by (auto simp: reaches_copy_def main_def Let_def split: option.splits)

lemma main_copy_calls:
  "copy_calls (trace (main e)) =
     (if reaches_copy e \<and> env_create_directories e = Done
      then copies_of (passed e @ stopped_at e) else [])"
proof (cases "reaches_copy e")
  case False
  then show ?thesis by (simp add: main_not_reaches_copy)
next
  case True
  from main_reaches_copy [OF True] obtain w post where "copy_calls (trace w) = []"
    "trace (main e) = trace (try_catch e w) @ [CallSystem umount_cmd, post]"
    "copy_calls [post] = []" by blast
  with True show ?thesis by (simp add: try_catch_copy_calls)
qed

lemma main_cerr_lines:
  assumes "reaches_copy e"
  shows "cerr_lines (trace (main e)) =
           (case thrown e of None \<Rightarrow> [] | Some msg \<Rightarrow> [''Filesystem error: '' @ msg]) @
           (if env_system e umount_cmd \<noteq> 0 then [''Unmount failed.''] else [])"
proof -
  from main_reaches_copy [OF assms] obtain w post where "cerr_lines (trace w) = []"
    "trace (main e) = trace (try_catch e w) @ [CallSystem umount_cmd, post]"
    "cerr_lines [post] = (if env_system e umount_cmd \<noteq> 0 then [''Unmount failed.''] else [])"
    by blast
  then show ?thesis by (simp add: try_catch_cerr_lines)
qed

lemma main_reports_before_umount:
  assumes "reaches_copy e" and "thrown e = Some msg"
  shows "\<exists>pre post. trace (main e) =
           pre @ [Cerr (''Filesystem error: '' @ msg), CallSystem umount_cmd, post]"
proof -
  from main_reaches_copy [OF assms(1)] obtain w post where
    "trace (main e) = trace (try_catch e w) @ [CallSystem umount_cmd, post]" by blast
  with assms(2) have "trace (main e) =
      trace (fst (try_body e w)) @ [Cerr (''Filesystem error: '' @ msg), CallSystem umount_cmd, post]"
    by (simp add: try_catch_trace)
  then show ?thesis by blast
qed

subsection \<open>File names\<close>

lemma filename_entry_path:
  assumes "CHR ''/'' \<notin> set (entry_name x)"
  shows "filename (entry_path x) = entry_name x"
proof -
  have "c \<noteq> CHR ''/''" if "c \<in> set (rev (entry_name x))" for c
    using that assms by auto
  then have "takeWhile (\<lambda>c. c \<noteq> CHR ''/'') (rev (entry_name x) @ rev source_dir)
               = rev (entry_name x) @ takeWhile (\<lambda>c. c \<noteq> CHR ''/'') (rev source_dir)"
    by (rule takeWhile_append2)
  also have "takeWhile (\<lambda>c. c \<noteq> CHR ''/'') (rev source_dir) = []"
    by (simp add: source_dir_def mount_point_def)
  finally show ?thesis by (simp add: filename_def entry_path_def)
qed

lemma target_path_name:
  "CHR ''/'' \<notin> set (entry_name x) \<Longrightarrow> target_path x = target_dir @ entry_name x"
  by (simp add: target_path_def filename_entry_path)

lemma copies_of_names:
  assumes "\<forall>x \<in> set xs. CHR ''/'' \<notin> set (entry_name x)"
  shows "copies_of xs =
           map (\<lambda>x. (source_dir @ entry_name x, target_dir @ entry_name x, overwrite_existing))
             (filter is_elf_file xs)"
  using assms by (simp add: copies_of_def entry_path_def target_path_name)

lemma copies_of_source:
  "(src, dst, opt) \<in> set (copies_of xs) \<Longrightarrow>
     \<exists>y \<in> set xs. is_elf_file y \<and> src = source_dir @ entry_name y"
  by (auto simp: copies_of_def entry_path_def)

lemma extension_elf_iff:
  "extension p = ''.elf'' \<longleftrightarrow> (\<exists>stem. stem \<noteq> [] \<and> filename p = stem @ ''.elf'')"
proof
  assume "\<exists>stem. stem \<noteq> [] \<and> filename p = stem @ ''.elf''"
  then obtain stem where s: "stem \<noteq> []" and f: "filename p = stem @ ''.elf''" by blast
  from s obtain c cs where "stem = c # cs" by (cases stem) auto
  with f show "extension p = ''.elf''"
    by (simp add: extension_def Let_def)
next
  assume e: "extension p = ''.elf''"
  let ?f = "filename p"
  let ?P = "\<lambda>c. c \<noteq> CHR ''.''"
  from e have dot: "CHR ''.'' \<in> set ?f" and len: "Suc (length (takeWhile ?P (rev ?f))) \<noteq> length ?f"
    and suf: "rev (takeWhile ?P (rev ?f)) = ''elf''"
    by (auto simp: extension_def Let_def split: if_splits)
  from dot have "dropWhile ?P (rev ?f) \<noteq> []" by simp
  then obtain d ds where d: "dropWhile ?P (rev ?f) = d # ds" by (cases "dropWhile ?P (rev ?f)") auto
  then have "\<not> ?P d" using hd_dropWhile [of ?P "rev ?f"] by auto
  then have d': "d = CHR ''.''" by simp
  have "rev ?f = takeWhile ?P (rev ?f) @ dropWhile ?P (rev ?f)" by simp
  then have "rev (rev ?f) = rev (takeWhile ?P (rev ?f) @ dropWhile ?P (rev ?f))" by simp
  then have "?f = rev (dropWhile ?P (rev ?f)) @ rev (takeWhile ?P (rev ?f))"
    by (simp only: rev_append rev_rev_ident)
  with d d' suf have f: "?f = rev ds @ ''.elf''" by simp
  from suf have "length (rev (takeWhile ?P (rev ?f))) = 3" by simp
  then have "length (takeWhile ?P (rev ?f)) = 3" by (simp only: length_rev)
  with len f have "ds \<noteq> []" by auto
  with f show "\<exists>stem. stem \<noteq> [] \<and> filename p = stem @ ''.elf''" by auto
qed

subsection \<open>The sample runs, evaluated\<close>

lemmas run_defs =
  env_first_run_def env_second_run_def env_copy_fails_def env_no_partition_def
  only_device_exists_def charger_elf_def notes_txt_def
  old_elf_dir_def a_elf_def b_elf_def first_partition_exists_def always_zero_def
  copy_returns_def copy_of_a_throws_def

lemmas path_defs =
  mount_cmd_def umount_cmd_def partition_def real_dev_def c_string_def mount_point_def
  source_dir_def target_dir_def entry_path_def target_path_def filename_def extension_def
  symlink_def

lemma is_elf_file_runs:
  "is_elf_file charger_elf" "\<not> is_elf_file notes_txt" "\<not> is_elf_file old_elf_dir"
  "is_elf_file a_elf" "is_elf_file b_elf"
  by (simp_all add: is_elf_file_def run_defs path_defs Let_def)

lemma paths_runs:
  "entry_path charger_elf = ''/mnt/elf_usb/elf/charger.elf''"
  "target_path charger_elf = ''/main_module/data/elf/charger.elf''"
  "entry_path a_elf = ''/mnt/elf_usb/elf/a.elf''"
  "target_path a_elf = ''/main_module/data/elf/a.elf''"
  "entry_path b_elf = ''/mnt/elf_usb/elf/b.elf''"
  "target_path b_elf = ''/main_module/data/elf/b.elf''"
  by (simp_all add: run_defs path_defs)

lemma names_runs:
  "entry_name charger_elf = ''charger.elf''" "entry_name notes_txt = ''notes.txt''"
  "entry_name old_elf_dir = ''old.elf''" "entry_name a_elf = ''a.elf''"
  "entry_name b_elf = ''b.elf''"
  by (simp_all add: run_defs)

lemma reaches_copy_runs:
  "reaches_copy env_first_run" "reaches_copy env_second_run" "reaches_copy env_copy_fails"
  by (simp_all add: reaches_copy_def mkdir_blocks_def run_defs)

lemma listed_runs:
  "listed env_first_run = [charger_elf, notes_txt, old_elf_dir]"
  "listed env_second_run = [charger_elf, notes_txt, old_elf_dir]"
  "listed env_copy_fails = [a_elf, b_elf]"
  by (simp_all add: listed_def run_defs)

lemma no_filesystem_error_runs:
  "no_filesystem_error env_first_run" "no_filesystem_error env_second_run"
  by (simp_all add: no_filesystem_error_def entry_ok_def run_defs)

lemma well_formed_runs:
  "well_formed_names (listed env_first_run)" "well_formed_names (listed env_copy_fails)"
  by (simp_all add: well_formed_names_def listed_def run_defs)

lemma entry_ok_copy_fails: "\<not> entry_ok env_copy_fails a_elf"
  by (simp add: entry_ok_def is_elf_file_runs paths_runs)
     (simp add: env_copy_fails_def copy_of_a_throws_def)

lemma copy_fails_split:
  "passed env_copy_fails = []" "stopped_at env_copy_fails = [a_elf]"
  "behind_error env_copy_fails = [b_elf]"
  by (simp_all add: passed_def stopped_at_def behind_error_def listed_runs entry_ok_copy_fails)

lemma thrown_copy_fails: "thrown env_copy_fails = Some ''cannot copy file''"
proof -
  have "env_create_directories env_copy_fails = Done"
    and "env_entries env_copy_fails = Inr [a_elf, b_elf]"
    and "entry_status a_elf = Status regular_file"
    by (simp_all add: run_defs)
  moreover have "env_copy env_copy_fails (entry_path a_elf) (target_path a_elf)
                   = Throws ''cannot copy file''"
    by (simp add: paths_runs) (simp add: env_copy_fails_def copy_of_a_throws_def)
  ultimately show ?thesis by (simp add: thrown_def entry_ok_copy_fails)
qed

subsection \<open>What is mounted\<close>



subsection \<open>Unmounting, the report of an error and the exit status\<close>

text \<open>
  Claim C9, as amended. Whenever the mount command has returned 0, the program hands
  \<^verbatim>\<open>umount /mnt/elf_usb\<close> to \<^verbatim>\<open>system\<close> after the mount and as its last action but
  one, with only the closing message behind it, whatever the try block met. A filesystem
  error raised in the try block is caught and reported: the line
  \<^verbatim>\<open>Filesystem error: \<close> followed by the message of the exception is written to
  \<^verbatim>\<open>std::cerr\<close> right before the unmount, and apart from a failed unmount nothing else is
  written there, so that a run without a filesystem error reports none. The exit status
  is 0 or 1, and it is 0 exactly when \<^verbatim>\<open>readlink\<close> succeeds, \<^verbatim>\<open>mkdir\<close> succeeds or fails
  with \<^verbatim>\<open>EEXIST\<close>, and the mount and the unmount commands both return 0.
\<close>

theorem unmount_attempted_and_exit_status:
  "(\<forall>buf. env_readlink e = Some buf \<and> \<not> mkdir_blocks e \<and> env_system e (mount_cmd e buf) = 0 \<longrightarrow>
      (\<exists>pre post. trace (main e) = pre @ [CallSystem ''umount /mnt/elf_usb'', post] \<and>
         CallSystem (mount_cmd e buf) \<in> set pre)) \<and>
   (exit_status (main e) = 0 \<longleftrightarrow>
      (\<exists>buf. env_readlink e = Some buf \<and>
         (env_mkdir e = MkdirOk \<or> env_mkdir e = MkdirFailed EEXIST) \<and>
         env_system e (mount_cmd e buf) = 0 \<and> env_system e ''umount /mnt/elf_usb'' = 0)) \<and>
   (exit_status (main e) = 0 \<or> exit_status (main e) = 1) \<and>
   (reaches_copy e \<longrightarrow>
      cerr_lines (trace (main e)) =
        (case thrown e of None \<Rightarrow> [] | Some msg \<Rightarrow> [''Filesystem error: '' @ msg]) @
        (if env_system e ''umount /mnt/elf_usb'' = 0 then [] else [''Unmount failed.''])) \<and>
   (\<forall>msg. reaches_copy e \<and> thrown e = Some msg \<longrightarrow>
      (\<exists>pre post. trace (main e) =
         pre @ [Cerr (''Filesystem error: '' @ msg), CallSystem ''umount /mnt/elf_usb'', post]))"
proof -
  have u: "umount_cmd = ''umount /mnt/elf_usb''"
    by (simp add: umount_cmd_def mount_point_def)
  have "\<exists>pre post. trace (main e) = pre @ [CallSystem ''umount /mnt/elf_usb'', post] \<and>
          CallSystem (mount_cmd e buf) \<in> set pre"
    if "env_readlink e = Some buf \<and> \<not> mkdir_blocks e \<and> env_system e (mount_cmd e buf) = 0" for buf
    using umount_is_last_call [of e buf] that by (simp add: u)
  moreover have "exit_status (main e) = 0 \<longleftrightarrow>
      (\<exists>buf. env_readlink e = Some buf \<and>
         (env_mkdir e = MkdirOk \<or> env_mkdir e = MkdirFailed EEXIST) \<and>
         env_system e (mount_cmd e buf) = 0 \<and> env_system e ''umount /mnt/elf_usb'' = 0)"
    by (cases "env_readlink e") (auto simp: exit_status_main u mkdir_blocks_iff [symmetric])
  moreover have "exit_status (main e) = 0 \<or> exit_status (main e) = 1"
    by (cases "env_readlink e") (simp_all add: exit_status_main)
  moreover have "cerr_lines (trace (main e)) =
        (case thrown e of None \<Rightarrow> [] | Some msg \<Rightarrow> [''Filesystem error: '' @ msg]) @
        (if env_system e ''umount /mnt/elf_usb'' = 0 then [] else [''Unmount failed.''])"
    if "reaches_copy e"
    using main_cerr_lines [OF that] by (simp add: u)
  moreover have "\<exists>pre post. trace (main e) =
         pre @ [Cerr (''Filesystem error: '' @ msg), CallSystem ''umount /mnt/elf_usb'', post]"
    if "reaches_copy e \<and> thrown e = Some msg" for msg
    using main_reports_before_umount [of e msg] that by (simp add: u)
  ultimately show ?thesis by blast
qed

text \<open>
  The second run meets every condition, with \<^verbatim>\<open>mkdir\<close> failing on the mount point it
  finds, and reports nothing; the run whose first copy throws reports that error, right
  before the unmount.
\<close>

theorem unmount_attempted_and_exit_status_witness:
  "(env_readlink env_second_run = Some ''sdb'' \<and> \<not> mkdir_blocks env_second_run \<and>
    env_system env_second_run (mount_cmd env_second_run ''sdb'') = 0 \<and>
    env_mkdir env_second_run = MkdirFailed EEXIST \<and>
    env_system env_second_run ''umount /mnt/elf_usb'' = 0 \<and>
    (\<exists>pre post. trace (main env_second_run) = pre @ [CallSystem ''umount /mnt/elf_usb'', post] \<and>
       CallSystem (mount_cmd env_second_run ''sdb'') \<in> set pre) \<and>
    exit_status (main env_second_run) = 0 \<and>
    reaches_copy env_second_run \<and> thrown env_second_run = None \<and>
    cerr_lines (trace (main env_second_run)) = []) \<and>
   (reaches_copy env_copy_fails \<and> thrown env_copy_fails = Some ''cannot copy file'' \<and>
    env_system env_copy_fails ''umount /mnt/elf_usb'' = 0 \<and>
    cerr_lines (trace (main env_copy_fails)) = [''Filesystem error: cannot copy file''] \<and>
    (\<exists>pre post. trace (main env_copy_fails) =
       pre @ [Cerr ''Filesystem error: cannot copy file'',
              CallSystem ''umount /mnt/elf_usb'', post]))"
proof -
  have h: "env_readlink env_second_run = Some ''sdb''" "\<not> mkdir_blocks env_second_run"
    "env_system env_second_run (mount_cmd env_second_run ''sdb'') = 0"
    "env_mkdir env_second_run = MkdirFailed EEXIST"
    "env_system env_second_run ''umount /mnt/elf_usb'' = 0"
    by (simp_all add: mkdir_blocks_def run_defs)
  have t: "thrown env_second_run = None"
    using no_filesystem_error_runs(2) by (simp add: thrown_None_iff)
  from unmount_attempted_and_exit_status [of env_second_run] h
  have a: "(\<exists>pre post. trace (main env_second_run) = pre @ [CallSystem ''umount /mnt/elf_usb'', post] \<and>
       CallSystem (mount_cmd env_second_run ''sdb'') \<in> set pre) \<and>
    exit_status (main env_second_run) = 0"
    by blast
  from unmount_attempted_and_exit_status [of env_second_run] reaches_copy_runs(2) t h(5)
  have b: "cerr_lines (trace (main env_second_run)) = []" by simp
  have k: "env_system env_copy_fails ''umount /mnt/elf_usb'' = 0" by (simp add: run_defs)
  from unmount_attempted_and_exit_status [of env_copy_fails] reaches_copy_runs(3)
    thrown_copy_fails k
  have c: "cerr_lines (trace (main env_copy_fails)) = [''Filesystem error: cannot copy file'']"
    by simp
  from unmount_attempted_and_exit_status [of env_copy_fails] reaches_copy_runs(3)
    thrown_copy_fails
  have d: "\<exists>pre post. trace (main env_copy_fails) =
       pre @ [Cerr ''Filesystem error: cannot copy file'',
              CallSystem ''umount /mnt/elf_usb'', post]"
    by simp
  from h a b c d t k reaches_copy_runs thrown_copy_fails show ?thesis by simp
qed

text \<open>
  Claim C9 as first stated fails there: \<^verbatim>\<open>mkdir\<close> does not succeed, it returns a negative
  value with \<^verbatim>\<open>errno\<close> at \<^verbatim>\<open>EEXIST\<close>, and the program still exits with status 0.
\<close>

theorem exit_zero_although_mkdir_failed:
  "exit_status (main env_second_run) = 0 \<and> env_mkdir env_second_run = MkdirFailed EEXIST"
  by (simp add: exit_status_main mkdir_blocks_def run_defs)

subsection \<open>What is copied\<close>

text \<open>
  Claim C8, as amended. To copy an entry is to call \<^verbatim>\<open>std::filesystem::copy\<close> from its path
  in the source directory to the target directory under the same file name, with the
  option \<^verbatim>\<open>overwrite_existing\<close>, which overwrites an existing file of that name. In every
  run the copies asked for are exactly these: none unless the run reaches the try block
  and \<^verbatim>\<open>create_directories\<close> returns; then, in the order of the directory, those of the
  regular files with extension \<^verbatim>\<open>.elf\<close> among the entries up to and including the first
  one at which a filesystem error is raised. So when no filesystem error is raised the
  program copies exactly the entries that are regular files with extension \<^verbatim>\<open>.elf\<close>; a
  filesystem error ends the loop, and no entry behind it is copied; and in every run an
  entry that is not a regular file or has another extension is never copied.
\<close>

theorem copies_elf_regular_files:
  "copy_calls (trace (main e)) =
     (if reaches_copy e \<and> env_create_directories e = Done
      then copies_of (passed e @ stopped_at e) else []) \<and>
   (reaches_copy e \<and> no_filesystem_error e \<longrightarrow>
      copy_calls (trace (main e)) = copies_of (listed e)) \<and>
   (\<forall>c \<in> set (copy_calls (trace (main e))).
      \<exists>x \<in> set (listed e). is_elf_file x \<and> c = (entry_path x, target_path x, overwrite_existing)) \<and>
   (well_formed_names (listed e) \<longrightarrow>
      (\<forall>x \<in> set (listed e).
         (is_elf_file x \<and> reaches_copy e \<and> no_filesystem_error e \<longrightarrow>
            (source_dir @ entry_name x, target_dir @ entry_name x, overwrite_existing)
              \<in> set (copy_calls (trace (main e)))) \<and>
         (\<not> is_elf_file x \<or> x \<in> set (behind_error e) \<longrightarrow>
            (\<forall>dst opt. (source_dir @ entry_name x, dst, opt)
               \<notin> set (copy_calls (trace (main e)))))))"
proof -
  let ?calls = "copy_calls (trace (main e))"
  have exact: "?calls =
     (if reaches_copy e \<and> env_create_directories e = Done
      then copies_of (passed e @ stopped_at e) else [])"
    by (rule main_copy_calls)
  have normal: "?calls = copies_of (listed e)" if "reaches_copy e \<and> no_filesystem_error e"
    using that no_error_passes_all [of e] by (simp add: exact)
  have sub: "set ?calls \<subseteq> set (copies_of (passed e @ stopped_at e))"
    by (auto simp: exact)
  have "set (listed e) = set (passed e @ stopped_at e) \<union> set (behind_error e)"
    by (subst listed_split) auto
  then have among: "set (passed e @ stopped_at e) \<subseteq> set (listed e)"
    by blast
  have only: "\<exists>x \<in> set (listed e). is_elf_file x \<and> c = (entry_path x, target_path x, overwrite_existing)"
    if "c \<in> set ?calls" for c
  proof -
    from that sub have "c \<in> set (copies_of (passed e @ stopped_at e))" by blast
    then obtain x where "x \<in> set (passed e @ stopped_at e)" "is_elf_file x"
      "c = (entry_path x, target_path x, overwrite_existing)"
      unfolding copies_of_def by auto
    with among show ?thesis by blast
  qed
  have named: "(is_elf_file x \<and> reaches_copy e \<and> no_filesystem_error e \<longrightarrow>
            (source_dir @ entry_name x, target_dir @ entry_name x, overwrite_existing) \<in> set ?calls) \<and>
         (\<not> is_elf_file x \<or> x \<in> set (behind_error e) \<longrightarrow>
            (\<forall>dst opt. (source_dir @ entry_name x, dst, opt) \<notin> set ?calls))"
    if wf: "well_formed_names (listed e)" and x: "x \<in> set (listed e)" for x
  proof -
    from wf have slash: "\<forall>y \<in> set (listed e). CHR ''/'' \<notin> set (entry_name y)"
      and dist: "distinct (map entry_name (listed e))"
      by (simp_all add: well_formed_names_def list_all_iff)
    have hit: "(source_dir @ entry_name x, target_dir @ entry_name x, overwrite_existing) \<in> set ?calls"
      if "is_elf_file x" "reaches_copy e" "no_filesystem_error e"
    proof -
      from that(2,3) have "?calls = copies_of (listed e)" by (simp add: normal)
      also have "\<dots> = map (\<lambda>x. (source_dir @ entry_name x, target_dir @ entry_name x,
                                   overwrite_existing)) (filter is_elf_file (listed e))"
        using slash by (rule copies_of_names)
      finally show ?thesis using x that(1) by auto
    qed
    have miss: "(source_dir @ entry_name x, dst, opt) \<notin> set ?calls"
      if nx: "\<not> is_elf_file x \<or> x \<in> set (behind_error e)" for dst opt
    proof
      assume "(source_dir @ entry_name x, dst, opt) \<in> set ?calls"
      with sub have "(source_dir @ entry_name x, dst, opt) \<in> set (copies_of (passed e @ stopped_at e))"
        by blast
      from copies_of_source [OF this] obtain y where y: "y \<in> set (passed e @ stopped_at e)"
        "is_elf_file y" and n: "entry_name x = entry_name y" by auto
      from nx show False
      proof
        assume "\<not> is_elf_file x"
        with y(2) have "x \<noteq> y" by auto
        moreover from dist have "inj_on entry_name (set (listed e))" by (simp add: distinct_map)
        moreover from y(1) among have "y \<in> set (listed e)" by blast
        ultimately show False using n x by (auto dest: inj_onD)
      next
        assume b: "x \<in> set (behind_error e)"
        from dist have "distinct (map entry_name ((passed e @ stopped_at e) @ behind_error e))"
          by (subst (asm) listed_split) simp
        then have "set (map entry_name (passed e @ stopped_at e)) \<inter>
                     set (map entry_name (behind_error e)) = {}"
          by (simp only: map_append distinct_append)
        moreover from y(1) have "entry_name y \<in> set (map entry_name (passed e @ stopped_at e))"
          by (simp only: set_map) (rule imageI)
        moreover from b have "entry_name x \<in> set (map entry_name (behind_error e))"
          by (simp only: set_map) (rule imageI)
        ultimately show False using n by auto
      qed
    qed
    from hit miss show ?thesis by blast
  qed
  from exact normal only named show ?thesis by blast
qed

text \<open>
  The first run copies the image and neither the text file nor the directory named
  \<^verbatim>\<open>old.elf\<close>; the run whose first copy throws asks for that copy and for no other.
\<close>

theorem copies_elf_regular_files_witness:
  "(reaches_copy env_first_run \<and> no_filesystem_error env_first_run \<and>
    well_formed_names (listed env_first_run) \<and>
    listed env_first_run = [charger_elf, notes_txt, old_elf_dir] \<and>
    is_elf_file charger_elf \<and> \<not> is_elf_file notes_txt \<and> \<not> is_elf_file old_elf_dir \<and>
    copy_calls (trace (main env_first_run)) =
      [(''/mnt/elf_usb/elf/charger.elf'', ''/main_module/data/elf/charger.elf'',
        overwrite_existing)]) \<and>
   (reaches_copy env_copy_fails \<and> env_create_directories env_copy_fails = Done \<and>
    well_formed_names (listed env_copy_fails) \<and>
    passed env_copy_fails = [] \<and> stopped_at env_copy_fails = [a_elf] \<and>
    behind_error env_copy_fails = [b_elf] \<and>
    copy_calls (trace (main env_copy_fails)) =
      [(''/mnt/elf_usb/elf/a.elf'', ''/main_module/data/elf/a.elf'', overwrite_existing)] \<and>
    (''/mnt/elf_usb/elf/b.elf'', ''/main_module/data/elf/b.elf'', overwrite_existing)
      \<notin> set (copy_calls (trace (main env_copy_fails))))"
proof -
  from copies_elf_regular_files [of env_first_run] reaches_copy_runs(1) no_filesystem_error_runs(1)
  have "copy_calls (trace (main env_first_run)) = copies_of (listed env_first_run)" by blast
  then have first: "copy_calls (trace (main env_first_run)) =
      [(''/mnt/elf_usb/elf/charger.elf'', ''/main_module/data/elf/charger.elf'',
        overwrite_existing)]"
    by (simp add: listed_runs is_elf_file_runs paths_runs)
  have c: "env_create_directories env_copy_fails = Done" by (simp add: run_defs)
  from copies_elf_regular_files [of env_copy_fails] reaches_copy_runs(3) c
  have "copy_calls (trace (main env_copy_fails)) =
          copies_of (passed env_copy_fails @ stopped_at env_copy_fails)" by simp
  then have second: "copy_calls (trace (main env_copy_fails)) =
      [(''/mnt/elf_usb/elf/a.elf'', ''/main_module/data/elf/a.elf'', overwrite_existing)]"
    by (simp add: copy_fails_split is_elf_file_runs paths_runs)
  have "b_elf \<in> set (listed env_copy_fails)" "b_elf \<in> set (behind_error env_copy_fails)"
    by (simp_all add: listed_runs copy_fails_split)
  with copies_elf_regular_files [of env_copy_fails] well_formed_runs(2)
  have "\<forall>dst opt. (source_dir @ entry_name b_elf, dst, opt)
          \<notin> set (copy_calls (trace (main env_copy_fails)))" by blast
  then have "(source_dir @ entry_name b_elf, ''/main_module/data/elf/b.elf'', overwrite_existing)
          \<notin> set (copy_calls (trace (main env_copy_fails)))" by blast
  then have third: "(''/mnt/elf_usb/elf/b.elf'', ''/main_module/data/elf/b.elf'', overwrite_existing)
      \<notin> set (copy_calls (trace (main env_copy_fails)))"
    by (simp add: names_runs source_dir_def mount_point_def)
  from first second third c reaches_copy_runs no_filesystem_error_runs well_formed_runs
    listed_runs is_elf_file_runs copy_fails_split
  show ?thesis by simp
qed

text \<open>
  Claim C8 as first stated fails when a copy throws: \<^verbatim>\<open>b.elf\<close> is a regular file with
  extension \<^verbatim>\<open>.elf\<close> in the source directory, and it is not copied.
\<close>

theorem second_image_not_copied_after_error:
  "reaches_copy env_copy_fails \<and> listed env_copy_fails = [a_elf, b_elf] \<and>
   is_elf_file a_elf \<and> is_elf_file b_elf \<and>
   copy_calls (trace (main env_copy_fails)) =
     [(''/mnt/elf_usb/elf/a.elf'', ''/main_module/data/elf/a.elf'', overwrite_existing)] \<and>
   exit_status (main env_copy_fails) = 0"
proof -
  have c: "env_create_directories env_copy_fails = Done" by (simp add: run_defs)
  have "copy_calls (trace (main env_copy_fails)) =
          copies_of (passed env_copy_fails @ stopped_at env_copy_fails)"
    using reaches_copy_runs(3) c by (simp add: main_copy_calls)
  then have "copy_calls (trace (main env_copy_fails)) =
     [(''/mnt/elf_usb/elf/a.elf'', ''/main_module/data/elf/a.elf'', overwrite_existing)]"
    by (simp add: copy_fails_split is_elf_file_runs paths_runs)
  moreover have "exit_status (main env_copy_fails) = 0"
    by (simp add: exit_status_main mkdir_blocks_def run_defs)
  ultimately show ?thesis
    by (simp add: reaches_copy_runs listed_runs is_elf_file_runs)
qed

section \<open>Properties of the Protocol Master\<close>

subsection \<open>The controller's memory\<close>

lemma write_bytes_outside:
  "y \<noteq> x \<or> b < a \<or> a + length bs \<le> b \<Longrightarrow> write_bytes m x a bs (y, b) = m (y, b)"
  by (induction bs arbitrary: m a) auto

lemma write_bytes_inside:
  "i < length bs \<Longrightarrow> write_bytes m x a bs (x, a + i) = bs ! i"
proof (induction bs arbitrary: m a i)
  case Nil
  then show ?case by simp
next
  case (Cons b bs)
  show ?case
  proof (cases i)
    case 0
    then show ?thesis by (simp add: write_bytes_outside)
  next
    case (Suc j)
    with Cons.prems have "j < length bs" by simp
    then have "write_bytes (m((x, a) := b)) x (Suc a) bs (x, Suc a + j) = bs ! j"
      by (rule Cons.IH)
    with Suc show ?thesis by simp
  qed
qed

lemma read_after_write: "read_bytes (write_bytes m x a bs) x a (length bs) = bs"
  by (rule nth_equalityI) (simp_all add: read_bytes_def write_bytes_inside)

lemma write_bytes_append:
  "write_bytes m x a (bs @ cs) = write_bytes (write_bytes m x a bs) x (a + length bs) cs"
  by (induction bs arbitrary: m a) simp_all

lemma read_bytes_add:
  "read_bytes m x a (k + r) = read_bytes m x a k @ read_bytes m x (a + k) r"
proof (rule nth_equalityI)
  show "length (read_bytes m x a (k + r)) = length (read_bytes m x a k @ read_bytes m x (a + k) r)"
    by (simp add: read_bytes_def)
next
  fix i
  assume "i < length (read_bytes m x a (k + r))"
  then have i: "i < k + r" by (simp add: read_bytes_def)
  show "read_bytes m x a (k + r) ! i = (read_bytes m x a k @ read_bytes m x (a + k) r) ! i"
  proof (cases "i < k")
    case True
    with i show ?thesis by (simp add: read_bytes_def nth_append)
  next
    case False
    with i have "i - k < r" by simp
    with False i show ?thesis by (simp add: read_bytes_def nth_append)
  qed
qed

subsection \<open>Exchanges on a link without faults\<close>

lemma send_no_fault:
  assumes "\<forall>k. faults l k = None"
  shows "send (SetMta a x) l = (Inr [], l\<lparr>traffic := traffic l @ [SetMta a x], pointer := (a, x)\<rparr>)"
    and "send (ReadChunk x a n) l =
           (Inr (read_bytes (memory l) x a n), l\<lparr>traffic := traffic l @ [ReadChunk x a n]\<rparr>)"
    and "send (WriteChunk x a bs) l =
           (Inr [], l\<lparr>traffic := traffic l @ [WriteChunk x a bs],
                       memory := write_bytes (memory l) x a bs\<rparr>)"
  using assms by (simp_all add: send_def respond_def Let_def)

lemma upload_chunks_no_fault:
  "\<forall>k. faults l k = None \<Longrightarrow>
     upload_chunks x a cs l =
       (Inr (read_all (memory l) x a cs), l\<lparr>traffic := traffic l @ read_frames x a cs\<rparr>)"
proof (induction cs arbitrary: l)
  case Nil
  show ?case by (simp add: read_frames_def)
next
  case (Cons c cs)
  obtain off n where c: "c = (off, n)" by (cases c)
  let ?l = "l\<lparr>traffic := traffic l @ [ReadChunk x (a + off) n]\<rparr>"
  from Cons.prems have "\<forall>k. faults ?l k = None" by simp
  from Cons.IH [OF this] send_no_fault(2) [OF Cons.prems, of x "a + off" n] c
  show ?case by (simp add: read_frames_def)
qed

lemma download_chunks_no_fault:
  "\<forall>k. faults l k = None \<Longrightarrow>
     download_chunks x a bs cs l =
       (Inr (), l\<lparr>traffic := traffic l @ write_frames x a bs cs,
                   memory := write_all (memory l) x a bs cs\<rparr>)"
proof (induction cs arbitrary: l)
  case Nil
  show ?case by (simp add: write_frames_def)
next
  case (Cons c cs)
  obtain off n where c: "c = (off, n)" by (cases c)
  let ?l = "l\<lparr>traffic := traffic l @ [WriteChunk x (a + off) (take n (drop off bs))],
              memory := write_bytes (memory l) x (a + off) (take n (drop off bs))\<rparr>"
  from Cons.prems have "\<forall>k. faults ?l k = None" by simp
  from Cons.IH [OF this]
    send_no_fault(3) [OF Cons.prems, of x "a + off" "take n (drop off bs)"] c
  show ?case by (simp add: write_frames_def)
qed

subsection \<open>The chunks of a transfer cover it, in order\<close>

lemma read_all_spans:
  "0 < mp \<Longrightarrow> read_all m x a (spans mp off n) = read_bytes m x (a + off) n"
proof (induction mp off n rule: spans.induct)
  case (1 mp off n)
  show ?case
  proof (cases "n = 0")
    case True
    then show ?thesis by (simp add: read_bytes_def)
  next
    case False
    let ?k = "min mp n"
    from False "1.prems" have sp: "spans mp off n = (off, ?k) # spans mp (off + ?k) (n - ?k)"
      by (subst spans.simps) simp
    from False "1.prems" "1.IH"
    have ih: "read_all m x a (spans mp (off + ?k) (n - ?k)) = read_bytes m x (a + (off + ?k)) (n - ?k)"
      by simp
    have "read_bytes m x (a + off) (?k + (n - ?k))
            = read_bytes m x (a + off) ?k @ read_bytes m x (a + off + ?k) (n - ?k)"
      by (rule read_bytes_add)
    moreover have "?k + (n - ?k) = n" by simp
    ultimately show ?thesis
      by (simp only: sp read_all.simps ih add.assoc)
  qed
qed

lemma take_drop_split:
  "k \<le> n \<Longrightarrow> take n (drop off bs) = take k (drop off bs) @ take (n - k) (drop (off + k) bs)"
proof -
  assume "k \<le> n"
  then have "take n (drop off bs) = take (k + (n - k)) (drop off bs)" by simp
  also have "\<dots> = take k (drop off bs) @ take (n - k) (drop k (drop off bs))"
    by (rule take_add)
  finally show ?thesis by (simp add: add.commute)
qed

lemma write_all_spans:
  "0 < mp \<Longrightarrow> off + n \<le> length bs \<Longrightarrow>
     write_all m x a bs (spans mp off n) = write_bytes m x (a + off) (take n (drop off bs))"
proof (induction mp off n arbitrary: m rule: spans.induct)
  case (1 mp off n)
  show ?case
  proof (cases "n = 0")
    case True
    then show ?thesis by simp
  next
    case False
    let ?k = "min mp n"
    let ?m = "write_bytes m x (a + off) (take ?k (drop off bs))"
    from False "1.prems" have sp: "spans mp off n = (off, ?k) # spans mp (off + ?k) (n - ?k)"
      by (subst spans.simps) simp
    from "1.prems" have le: "off + ?k + (n - ?k) \<le> length bs" by simp
    from False "1.prems" have c: "\<not> (n = 0 \<or> mp = 0)" by simp
    have ih: "write_all ?m x a bs (spans mp (off + ?k) (n - ?k))
                = write_bytes ?m x (a + (off + ?k)) (take (n - ?k) (drop (off + ?k) bs))"
      using "1.IH" [OF c "1.prems"(1) le] .
    from "1.prems" have len: "length (take ?k (drop off bs)) = ?k" by simp
    have "take n (drop off bs) = take ?k (drop off bs) @ take (n - ?k) (drop (off + ?k) bs)"
      by (rule take_drop_split) simp
    then have "write_bytes m x (a + off) (take n (drop off bs))
                 = write_bytes ?m x (a + off + ?k) (take (n - ?k) (drop (off + ?k) bs))"
      by (simp only: write_bytes_append len)
    then show ?thesis
      by (simp only: sp write_all.simps ih add.assoc)
  qed
qed

lemma established_simps [simp]:
  "established (l\<lparr>traffic := t\<rparr>) = established l"
  "established (l\<lparr>pointer := p\<rparr>) = established l"
  "established (l\<lparr>memory := m\<rparr>) = established l"
  by (simp_all add: established_def)

lemma setAddress_no_fault:
  assumes "established l" and "\<forall>k. faults l k = None"
  shows "setAddress l a x = (Inr (), l\<lparr>traffic := traffic l @ [SetMta a x], pointer := (a, x)\<rparr>)"
  using assms by (simp add: setAddress_def send_no_fault(1))

lemma download_no_fault:
  assumes "established l" and "\<forall>k. faults l k = None" and "0 < max_payload l"
  shows "download l bs =
           (Inr (), l\<lparr>traffic := traffic l @ write_frames (snd (pointer l)) (fst (pointer l)) bs
                                               (spans (max_payload l) 0 (length bs)),
                       memory := write_bytes (memory l) (snd (pointer l)) (fst (pointer l)) bs\<rparr>)"
proof -
  have "write_all (memory l) (snd (pointer l)) (fst (pointer l)) bs (spans (max_payload l) 0 (length bs))
          = write_bytes (memory l) (snd (pointer l)) (fst (pointer l) + 0) (take (length bs) (drop 0 bs))"
    using assms(3) by (rule write_all_spans) simp
  then show ?thesis
    using assms(1) by (simp add: download_def download_chunks_no_fault [OF assms(2)])
qed

lemma upload_no_fault:
  assumes "established l" and "\<forall>k. faults l k = None" and "0 < max_payload l"
  shows "upload l n =
           (Inr (read_bytes (memory l) (snd (pointer l)) (fst (pointer l)) n),
            l\<lparr>traffic := traffic l @ read_frames (snd (pointer l)) (fst (pointer l))
                                        (spans (max_payload l) 0 n)\<rparr>)"
  using assms(1) read_all_spans [OF assms(3), of "memory l" "snd (pointer l)" "fst (pointer l)" 0 n]
  by (simp add: upload_def upload_chunks_no_fault [OF assms(2)])

subsection \<open>The round trip\<close>

text \<open>
  Claim C1. On a controller with an established session (Connected or Measuring), over a
  link on which no exchange meets a fault and whose maximum frame payload is positive,
  \<^verbatim>\<open>setAddress\<close> to an address, then \<^verbatim>\<open>download\<close> of a byte sequence, then \<^verbatim>\<open>upload\<close> of
  as many bytes all succeed, and the upload returns exactly the bytes downloaded.
\<close>

theorem download_upload_round_trip:
  assumes "established l" and "\<forall>k. faults l k = None" and "0 < max_payload l"
  shows "fst (setAddress l a x) = Inr () \<and>
         fst (download (snd (setAddress l a x)) bs) = Inr () \<and>
         fst (upload (snd (download (snd (setAddress l a x)) bs)) (length bs)) = Inr bs"
proof -
  let ?l1 = "l\<lparr>traffic := traffic l @ [SetMta a x], pointer := (a, x)\<rparr>"
  let ?l2 = "?l1\<lparr>traffic := traffic ?l1 @ write_frames x a bs (spans (max_payload l) 0 (length bs)),
                 memory := write_bytes (memory l) x a bs\<rparr>"
  have s: "setAddress l a x = (Inr (), ?l1)"
    using assms(1,2) by (rule setAddress_no_fault)
  have e1: "established ?l1" and f1: "\<forall>k. faults ?l1 k = None" and p1: "0 < max_payload ?l1"
    using assms by simp_all
  have d: "download ?l1 bs = (Inr (), ?l2)"
    using download_no_fault [OF e1 f1 p1, of bs] by simp
  have e2: "established ?l2" and f2: "\<forall>k. faults ?l2 k = None" and p2: "0 < max_payload ?l2"
    using assms by simp_all
  have "fst (upload ?l2 (length bs)) = Inr (read_bytes (write_bytes (memory l) x a bs) x a (length bs))"
    using upload_no_fault [OF e2 f2 p2, of "length bs"] by simp
  then have u: "fst (upload ?l2 (length bs)) = Inr bs"
    by (simp only: read_after_write)
  from s d u show ?thesis by simp
qed

text \<open>Nine bytes over a link that carries four a frame, at address 0x10000000.\<close>

theorem download_upload_round_trip_witness:
  "established connected_link \<and> (\<forall>k. faults connected_link k = None) \<and>
   0 < max_payload connected_link \<and>
   fst (setAddress connected_link 268435456 0) = Inr () \<and>
   fst (download (snd (setAddress connected_link 268435456 0)) nine_bytes) = Inr () \<and>
   fst (upload (snd (download (snd (setAddress connected_link 268435456 0)) nine_bytes))
          (length nine_bytes)) = Inr nine_bytes"
proof -
  have h1: "established connected_link" by (simp add: established_def connected_link_def)
  have h2: "\<forall>k. faults connected_link k = None" by (simp add: connected_link_def no_fault_def)
  have h3: "0 < max_payload connected_link" by (simp add: connected_link_def)
  from download_upload_round_trip [OF h1 h2 h3, of 268435456 0 nine_bytes] h1 h2 h3
  show ?thesis by simp
qed

subsection \<open>Commands before the session is established\<close>

text \<open>
  Claim C4. On a controller whose session is Disconnected, an UPLOAD command yields a
  Response with the command's identifier, status error and a message saying that the
  session is not established; the link is left as it was, so no frame is sent for the
  command. \<^verbatim>\<open>setAddress\<close> on such a controller fails with SessionError, again with the
  link left as it was.
\<close>

theorem disconnected_session_rejects:
  assumes "session l = Disconnected"
  shows "execute l \<lparr>cmd_id = cid, cmd_operation = UPLOAD n\<rparr> =
           (\<lparr>command_id = cid, resp_status = error, message = ''session not established'',
             returned = []\<rparr>, l) \<and>
         traffic (snd (execute l \<lparr>cmd_id = cid, cmd_operation = UPLOAD n\<rparr>)) = traffic l \<and>
         setAddress l a x = (Inl SessionError, l)"
proof -
  from assms have ne: "\<not> established l" by (simp add: established_def)
  then have u: "upload l n = (Inl SessionError, l)" by (simp add: upload_def)
  have "execute l \<lparr>cmd_id = cid, cmd_operation = UPLOAD n\<rparr> =
           (\<lparr>command_id = cid, resp_status = error, message = ''session not established'',
             returned = []\<rparr>, l)"
    by (simp add: execute_def u failed_def message_of_def)
  moreover from ne have "setAddress l a x = (Inl SessionError, l)" by (simp add: setAddress_def)
  ultimately show ?thesis by simp
qed

text \<open>The controller no one has connected to, and an upload of four bytes.\<close>

theorem disconnected_session_rejects_witness:
  "session fresh_link = Disconnected \<and>
   execute fresh_link upload_command =
     (\<lparr>command_id = ''2'', resp_status = error, message = ''session not established'',
       returned = []\<rparr>, fresh_link) \<and>
   traffic (snd (execute fresh_link upload_command)) = [] \<and>
   setAddress fresh_link 268435456 0 = (Inl SessionError, fresh_link)"
proof -
  have h: "session fresh_link = Disconnected" by (simp add: fresh_link_def)
  have t: "traffic fresh_link = []" by (simp add: fresh_link_def connected_link_def)
  from disconnected_session_rejects [OF h, of "''2''" 4 268435456 0] h t show ?thesis
    by (simp add: upload_command_def)
qed

text \<open>With an established session the same command does reach the link.\<close>

lemma established_upload_sends:
  assumes "established l" and "\<forall>k. faults l k = None" and "0 < max_payload l" and "0 < n"
  shows "traffic (snd (upload l n)) \<noteq> traffic l"
proof -
  from assms(3,4) have "spans (max_payload l) 0 n \<noteq> []" by (subst spans.simps) simp
  then show ?thesis
    using upload_no_fault [OF assms(1-3), of n] by (simp add: read_frames_def)
qed

end
